theory Spec2Isabelle
  imports Main "HOL-Library.Sublist" "HOL-Library.List_Lexorder"
begin

section \<open>The symlink-repair utility, scripts/fix\_nvrtc.py\<close>

text \<open>
  The script looks for the NVRTC builtins library below the environment's
  site-packages directory and links it into the environment's lib directory.
  Paths are Python strings; they are modelled as \<^typ>\<open>string\<close>, one
  \<^typ>\<open>char\<close> per code point, which covers the code points 0 to 255.
  The calls to \<^verbatim>\<open>print\<close> only write to standard output and are left out.
\<close>

subsection \<open>Errors\<close>

datatype py_error = ValueError | IndexError | OSError

subsection \<open>String primitives\<close>

text \<open>\<^verbatim>\<open>b.startswith(sep)\<close> and \<^verbatim>\<open>path.endswith(sep)\<close>.\<close>

definition startswith :: "string \<Rightarrow> string \<Rightarrow> bool" where
  "startswith s p = prefix p s"

definition endswith :: "string \<Rightarrow> string \<Rightarrow> bool" where
  "endswith s p = suffix p s"

text \<open>
  \<^verbatim>\<open>s.split(sep)\<close> for a non-empty separator: the string is scanned from the left,
  every occurrence of the separator closes the current piece and the scan goes
  on behind it. \<open>cur\<close> is the piece being read. Both calls of the source pass a
  non-empty literal (Python raises on an empty one; here nothing is split).
\<close>

function split_from :: "string \<Rightarrow> string \<Rightarrow> string \<Rightarrow> string list" where
  "split_from sep cur [] = [cur]"
| "split_from sep cur (c # cs) =
     (if sep \<noteq> [] \<and> prefix sep (c # cs)
      then cur # split_from sep [] (drop (length sep) (c # cs))
      else split_from sep (cur @ [c]) cs)"
  by pat_completeness auto
termination
  by (relation "measure (\<lambda>(sep, cur, s). length s)") auto

definition py_split :: "string \<Rightarrow> string \<Rightarrow> string list" where
  "py_split s sep = split_from sep [] s"

text \<open>
  \<^verbatim>\<open>p.isdigit()\<close>: the string is not empty and every character is a digit.
  Below code point 256 the digit characters are the ten ASCII digits and the
  superscripts two, three and one (code points B2, B3, B9 in hexadecimal).
\<close>

definition ascii_digit :: "char \<Rightarrow> bool" where
  "ascii_digit c = (c \<in> set ''0123456789'')"

definition isdigit_char :: "char \<Rightarrow> bool" where
  "isdigit_char c = (ascii_digit c \<or> c \<in> set [CHR 0xB2, CHR 0xB3, CHR 0xB9])"

definition isdigit :: "string \<Rightarrow> bool" where
  "isdigit s = (s \<noteq> [] \<and> list_all isdigit_char s)"

text \<open>
  \<^verbatim>\<open>int(p)\<close> on a string that passed \<^verbatim>\<open>isdigit\<close>: ASCII digits are read in
  base ten; a superscript digit makes \<^verbatim>\<open>int\<close> raise \<^verbatim>\<open>ValueError\<close>.
  The interpreter's limit on the length of a decimal string (4300 digits by
  default) is beyond the length of a path and is not modelled.
\<close>

definition digit_value :: "char \<Rightarrow> int" where
  "digit_value c = int (of_char c) - 48"

definition py_int :: "string \<Rightarrow> py_error + int" where
  "py_int s =
     (if s \<noteq> [] \<and> list_all ascii_digit s
      then Inr (foldl (\<lambda>acc c. 10 * acc + digit_value c) 0 s)
      else Inl ValueError)"

subsection \<open>Path primitives (posixpath)\<close>

text \<open>
  One round of the loop of \<^verbatim>\<open>os.path.join\<close>: an absolute component replaces
  the path, otherwise it is appended, with a slash unless the path is empty or
  ends with one.
\<close>

definition join_step :: "string \<Rightarrow> string \<Rightarrow> string" where
  "join_step path b =
     (if startswith b ''/'' then b
      else if path = [] \<or> endswith path ''/'' then path @ b
      else path @ ''/'' @ b)"

definition os_path_join :: "string \<Rightarrow> string list \<Rightarrow> string" where
  "os_path_join a ps = foldl join_step a ps"

text \<open>\<^verbatim>\<open>os.path.basename\<close>: what follows the last slash.\<close>

definition os_path_basename :: "string \<Rightarrow> string" where
  "os_path_basename p = rev (takeWhile (\<lambda>c. c \<noteq> CHR ''/'') (rev p))"

subsection \<open>The version key and the stable descending sort\<close>

text \<open>
  The list comprehension \<^verbatim>\<open>[int(p) for p in ... if p.isdigit()]\<close>: the first
  conversion that raises ends it.
\<close>

fun int_each :: "string list \<Rightarrow> py_error + int list" where
  "int_each [] = Inr []"
| "int_each (p # ps) =
     (case py_int p of
        Inl e \<Rightarrow> Inl e
      | Inr n \<Rightarrow> (case int_each ps of Inl e \<Rightarrow> Inl e | Inr ns \<Rightarrow> Inr (n # ns)))"

text \<open>
  \<^verbatim>\<open>version_key\<close>: the part behind the last \<^verbatim>\<open>.so.\<close> is cut at the dots and its
  all-digit pieces are read as integers. The bare \<^verbatim>\<open>except\<close> turns every
  exception into the default key \<open>[0]\<close>, which is also the key of a path with
  no \<^verbatim>\<open>.so.\<close> in it.
\<close>

definition version_key :: "string \<Rightarrow> int list" where
  "version_key path =
     (let parts = py_split path ''.so.'' in
      if length parts > 1
      then (case int_each (filter isdigit (py_split (last parts) ''.'')) of
              Inr ver \<Rightarrow> ver
            | Inl e \<Rightarrow> [0])
      else [0])"

text \<open>
  \<^verbatim>\<open>xs.sort(key=f, reverse=True)\<close>: descending by key, and stable, so that
  elements with equal keys keep the order they had. Python lists compare
  lexicographically, a proper prefix being smaller, which is the order of
  \<^typ>\<open>int list\<close> here.
\<close>

definition sort_reverse :: "('a \<Rightarrow> 'k::linorder) \<Rightarrow> 'a list \<Rightarrow> 'a list" where
  "sort_reverse f xs = rev (sort_key f (rev xs))"

subsection \<open>The environment\<close>

text \<open>
  What the script sees of the machine. \<open>glob_py pattern recursive\<close> is the list
  \<^verbatim>\<open>glob.glob\<close> returns. \<open>nodes\<close> is the directory tree without following
  links: a path is a regular file, a directory or a symbolic link with its
  target and whether the target can be reached. \<open>writable\<close> says whether the
  process may create or delete the entry at a path.
\<close>

datatype node = Regular | Directory | Link string bool

record world =
  glob_py :: "string \<Rightarrow> bool \<Rightarrow> string list"
  nodes :: "string \<rightharpoonup> node"
  writable :: "string \<Rightarrow> bool"

subsection \<open>find\_nvrtc\_lib\<close>

definition find_nvrtc_lib :: "world \<Rightarrow> string \<Rightarrow> py_error + string option" where
  "find_nvrtc_lib w env_prefix =
     (case glob_py w (os_path_join env_prefix [''lib'', ''python*'', ''site-packages'']) False of
        [] \<Rightarrow> Inr None
      | site_packages # rest \<Rightarrow>
          (let search_pattern =
                 os_path_join site_packages [''nvidia'', ''**'', ''libnvrtc-builtins.so*''];
               candidates = glob_py w search_pattern True
           in if candidates = [] then Inr None
              else (case sort_reverse version_key candidates of
                      [] \<Rightarrow> Inl IndexError
                    | best # others \<Rightarrow> Inr (Some best))))"

subsection \<open>File-system calls\<close>

text \<open>
  \<^verbatim>\<open>os.path.exists\<close> follows links, so a link whose target cannot be reached
  does not exist for it; \<^verbatim>\<open>os.path.islink\<close> and \<^verbatim>\<open>os.readlink\<close> look at the
  entry itself.
\<close>

definition os_path_exists :: "world \<Rightarrow> string \<Rightarrow> bool" where
  "os_path_exists w p =
     (case nodes w p of
        None \<Rightarrow> False
      | Some Regular \<Rightarrow> True
      | Some Directory \<Rightarrow> True
      | Some (Link target reachable) \<Rightarrow> reachable)"

definition os_path_islink :: "world \<Rightarrow> string \<Rightarrow> bool" where
  "os_path_islink w p =
     (case nodes w p of
        Some (Link target reachable) \<Rightarrow> True
      | Some Regular \<Rightarrow> False
      | Some Directory \<Rightarrow> False
      | None \<Rightarrow> False)"

definition os_readlink :: "world \<Rightarrow> string \<Rightarrow> py_error + string" where
  "os_readlink w p =
     (case nodes w p of
        Some (Link target reachable) \<Rightarrow> Inr target
      | Some Regular \<Rightarrow> Inl OSError
      | Some Directory \<Rightarrow> Inl OSError
      | None \<Rightarrow> Inl OSError)"

text \<open>
  \<^verbatim>\<open>os.remove\<close> deletes a file or a link and raises for a directory, a missing
  path or a path the process may not change. \<^verbatim>\<open>os.symlink(src, dst)\<close> raises
  when there is an entry at \<open>dst\<close> already, a dangling link included, or when
  the process may not create it.
\<close>

definition os_remove :: "world \<Rightarrow> string \<Rightarrow> py_error + world" where
  "os_remove w p =
     (case nodes w p of
        None \<Rightarrow> Inl OSError
      | Some Directory \<Rightarrow> Inl OSError
      | Some Regular \<Rightarrow>
          if writable w p then Inr (w\<lparr>nodes := (nodes w)(p := None)\<rparr>) else Inl OSError
      | Some (Link target reachable) \<Rightarrow>
          if writable w p then Inr (w\<lparr>nodes := (nodes w)(p := None)\<rparr>) else Inl OSError)"

definition os_symlink :: "world \<Rightarrow> string \<Rightarrow> string \<Rightarrow> py_error + world" where
  "os_symlink w src dst =
     (if nodes w dst \<noteq> None \<or> \<not> writable w dst then Inl OSError
      else Inr (w\<lparr>nodes := (nodes w)(dst \<mapsto> Link src (os_path_exists w src))\<rparr>))"

subsection \<open>main\<close>

text \<open>
  How a run ends: \<^verbatim>\<open>main\<close> returns, \<^verbatim>\<open>sys.exit(n)\<close> is called, or an exception
  leaves \<^verbatim>\<open>main\<close> uncaught, which the interpreter reports with status 1.
  A run also yields the environment it leaves behind and the calls it made that
  change the file system, in order, whether or not they raised.
\<close>

datatype outcome = Returned | Exit int | Uncaught py_error

fun exit_status :: "outcome \<Rightarrow> int" where
  "exit_status Returned = 0"
| "exit_status (Exit n) = n"
| "exit_status (Uncaught e) = 1"

datatype fs_call = Remove string | Symlink string string

type_synonym run = "outcome \<times> world \<times> fs_call list"

definition calls :: "run \<Rightarrow> fs_call list" where
  "calls r = snd (snd r)"

text \<open>The destination: \<^verbatim>\<open>target_lib_dir\<close> joined with the source's base name.\<close>

definition destination_path :: "string \<Rightarrow> string \<Rightarrow> string" where
  "destination_path env_prefix source_lib =
     (let target_lib_dir = os_path_join env_prefix [''lib''];
          source_name = os_path_basename source_lib
      in os_path_join target_lib_dir [source_name])"

text \<open>The \<^verbatim>\<open>try\<close> block that ends \<^verbatim>\<open>main\<close>: an \<^verbatim>\<open>OSError\<close> is caught and exits with 1.\<close>

definition create_symlink :: "world \<Rightarrow> string \<Rightarrow> string \<Rightarrow> fs_call list \<Rightarrow> run" where
  "create_symlink w source_lib destination done =
     (case os_symlink w source_lib destination of
        Inl e \<Rightarrow> (Exit 1, w, done @ [Symlink source_lib destination])
      | Inr w' \<Rightarrow> (Returned, w', done @ [Symlink source_lib destination]))"

text \<open>
  \<^verbatim>\<open>main\<close>, with \<^verbatim>\<open>sys.prefix\<close> as its argument. \<^verbatim>\<open>not source_lib\<close> holds for
  \<^verbatim>\<open>None\<close> and for the empty string. \<^verbatim>\<open>os.readlink\<close> and \<^verbatim>\<open>os.remove\<close> are
  called outside the \<^verbatim>\<open>try\<close> block.
\<close>

definition main :: "world \<Rightarrow> string \<Rightarrow> run" where
  "main w env_prefix =
     (case find_nvrtc_lib w env_prefix of
        Inl e \<Rightarrow> (Uncaught e, w, [])
      | Inr None \<Rightarrow> (Exit 1, w, [])
      | Inr (Some source_lib) \<Rightarrow>
          if source_lib = [] then (Exit 1, w, [])
          else
            let destination = destination_path env_prefix source_lib in
            if os_path_exists w destination then
              if os_path_islink w destination then
                (case os_readlink w destination of
                   Inl e \<Rightarrow> (Uncaught e, w, [])
                 | Inr current_target \<Rightarrow>
                     if current_target = source_lib then (Exit 0, w, [])
                     else
                       (case os_remove w destination of
                          Inl e \<Rightarrow> (Uncaught e, w, [Remove destination])
                        | Inr w' \<Rightarrow>
                            create_symlink w' source_lib destination [Remove destination]))
              else (Exit 1, w, [])
            else create_symlink w source_lib destination [])"

subsection \<open>An example environment\<close>

text \<open>
  An environment with one site-packages directory and three copies of the
  library below it, two of them with the same version; \<open>tree\<close> is the
  directory tree the run starts from.
\<close>

definition example_world :: "(string \<rightharpoonup> node) \<Rightarrow> world" where
  "example_world tree =
     \<lparr>glob_py = (\<lambda>pattern recursive.
          if pattern = ''/env/lib/python*/site-packages'' \<and> \<not> recursive
          then [''/env/lib/python3.10/site-packages'']
          else if pattern = ''/env/lib/python3.10/site-packages/nvidia/**/libnvrtc-builtins.so*''
                  \<and> recursive
          then [''/env/lib/python3.10/site-packages/nvidia/cu12/lib/libnvrtc-builtins.so.12.4'',
                ''/env/lib/python3.10/site-packages/nvidia/cu13/lib/libnvrtc-builtins.so.13.0'',
                ''/env/lib/python3.10/site-packages/nvidia/alt/lib/libnvrtc-builtins.so.13.0'']
          else []),
      nodes = tree,
      writable = (\<lambda>p. True)\<rparr>"

subsection \<open>Version suffixes\<close>






section \<open>The placement scheduler of the specification\<close>

text \<open>
  run\_16GB\_demo.py loads the text encoder and the transformer into host
  memory, calls \<^verbatim>\<open>pipe.enable_model_cpu_offload()\<close> and relies on a patched
  pipeline to keep the two from overlapping on the accelerator. Neither the
  pipeline nor the offload hooks are among the sources; the demo only calls
  them. The specification describes that logic as a placement scheduler, and
  the definitions of this section follow its sections 3 and 4.
\<close>

type_synonym cid = string

text \<open>Modelled from the spec: the two tiers of the data model, Host and Accelerator.\<close>

datatype tier = Host | Accelerator

text \<open>
  Modelled from the spec: a component's current tier, which is Host,
  Accelerator or InTransit.
\<close>

datatype placement = At tier | InTransit

text \<open>Modelled from the spec: the error taxonomy of section 7.\<close>

datatype error = UnknownComponent | CapacityExceeded | AllocationFailure

text \<open>
  Modelled from the spec: a Component, with its footprint estimate in bytes, its
  current tier and its last-used sequence number; its identity is the name it
  is registered under.
\<close>

record component =
  footprint :: nat
  current :: placement
  last_used :: nat

text \<open>
  Modelled from the spec: the state the scheduler instance owns. \<open>entries\<close> is
  the Memory Tier Registry, \<open>capacity\<close> the capacity of each tier, \<open>groups\<close>
  the configured Exclusivity Groups and \<open>sequence\<close> the next last-used
  sequence number. The device-transfer primitive is an external collaborator
  that may report an allocation failure: \<open>device_ok c t n\<close> says whether the
  \<open>n\<close>-th transfer, of component \<open>c\<close> into tier \<open>t\<close>, succeeds, and
  \<open>attempts\<close> counts the transfers started.
\<close>

record registry =
  entries :: "(cid \<times> component) list"
  capacity :: "tier \<Rightarrow> nat"
  groups :: "cid list list"
  sequence :: nat
  device_ok :: "cid \<Rightarrow> tier \<Rightarrow> nat \<Rightarrow> bool"
  attempts :: nat

text \<open>Modelled from the spec: the Registry's record of a component, if it is registered.\<close>

definition lookup :: "registry \<Rightarrow> cid \<Rightarrow> component option" where
  "lookup r c = map_of (entries r) c"

text \<open>
  Modelled from the spec: \<^verbatim>\<open>currentTier(component)\<close>, which fails with
  UnknownComponent for an unregistered id.
\<close>

definition currentTier :: "registry \<Rightarrow> cid \<Rightarrow> error + placement" where
  "currentTier r c =
     (case lookup r c of None \<Rightarrow> Inl UnknownComponent | Some k \<Rightarrow> Inr (current k))"

text \<open>Modelled from the spec: a component is resident in a tier when that is its current tier.\<close>

definition resident :: "registry \<Rightarrow> tier \<Rightarrow> cid \<Rightarrow> bool" where
  "resident r t c = (currentTier r c = Inr (At t))"

text \<open>Modelled from the spec: \<^verbatim>\<open>occupants(tier)\<close>, the components resident in the tier.\<close>

definition occupants :: "registry \<Rightarrow> tier \<Rightarrow> cid list" where
  "occupants r t = filter (resident r t) (remdups (map fst (entries r)))"

text \<open>Modelled from the spec: the used bytes of a tier, the sum of its residents' footprints.\<close>

definition usedBytes :: "registry \<Rightarrow> tier \<Rightarrow> nat" where
  "usedBytes r t =
     sum_list (map (\<lambda>c. case lookup r c of None \<Rightarrow> 0 | Some k \<Rightarrow> footprint k) (occupants r t))"

text \<open>
  Modelled from the spec: \<^verbatim>\<open>wouldFit(tier, component)\<close>, used bytes plus footprint
  at most the capacity; UnknownComponent for an unregistered id.
\<close>

definition wouldFit :: "registry \<Rightarrow> tier \<Rightarrow> cid \<Rightarrow> error + bool" where
  "wouldFit r t c =
     (case lookup r c of
        None \<Rightarrow> Inl UnknownComponent
      | Some k \<Rightarrow> Inr (usedBytes r t + footprint k \<le> capacity r t))"

text \<open>Modelled from the spec: the Registry's bookkeeping update of one component's record.\<close>

definition amend :: "cid \<Rightarrow> (component \<Rightarrow> component) \<Rightarrow> registry \<Rightarrow> registry" where
  "amend c f r =
     r\<lparr>entries := map (\<lambda>(k, v). if k = c then (k, f v) else (k, v)) (entries r)\<rparr>"

text \<open>
  Modelled from the spec: the Transfer Executor's \<^verbatim>\<open>move(component, fromTier, toTier)\<close>.
  The component is in transit while the device primitive runs; on success its
  current tier is \<open>toTier\<close>, on an allocation failure it is back in
  \<open>fromTier\<close>. The result is the error, if any, and the registry. The spec does
  not say what \<^verbatim>\<open>move\<close> does for a component that is not in \<open>fromTier\<close>; here
  it fails and changes nothing. Moving within one tier transfers nothing.
\<close>

definition move :: "registry \<Rightarrow> cid \<Rightarrow> tier \<Rightarrow> tier \<Rightarrow> error option \<times> registry" where
  "move r c fromTier toTier =
     (case lookup r c of
        None \<Rightarrow> (Some UnknownComponent, r)
      | Some k \<Rightarrow>
          if current k \<noteq> At fromTier then (Some AllocationFailure, r)
          else if fromTier = toTier then (None, r)
          else
            let started = amend c (\<lambda>v. v\<lparr>current := InTransit\<rparr>) (r\<lparr>attempts := attempts r + 1\<rparr>)
            in if device_ok r c toTier (attempts r)
               then (None, amend c (\<lambda>v. v\<lparr>current := At toTier\<rparr>) started)
               else (Some AllocationFailure, amend c (\<lambda>v. v\<lparr>current := At fromTier\<rparr>) started))"

text \<open>Modelled from the spec: the other one of the two tiers.\<close>

definition alternate :: "tier \<Rightarrow> tier" where
  "alternate t = (case t of Host \<Rightarrow> Accelerator | Accelerator \<Rightarrow> Host)"

text \<open>
  Modelled from the spec: step 2 of \<^verbatim>\<open>ensureResident\<close>, the components to evict:
  every other member of the groups that contain the component and that is
  resident in the target tier, in ascending order of last-used sequence
  number.
\<close>

definition victims :: "registry \<Rightarrow> cid \<Rightarrow> tier \<Rightarrow> cid list" where
  "victims r c targetTier =
     sort_key (\<lambda>m. case lookup r m of None \<Rightarrow> 0 | Some k \<Rightarrow> last_used k)
       (filter (\<lambda>m. m \<noteq> c \<and> resident r targetTier m)
          (remdups (concat (filter (\<lambda>g. c \<in> set g) (groups r)))))"

text \<open>
  Modelled from the spec: the evictions of step 2, each a \<^verbatim>\<open>move\<close> to Host (the
  tier the spec names), issued in the order given and stopped by the first
  failure. The second component of the result lists the registry after each
  transfer, that is, the quiescent points passed.
\<close>

fun evict :: "registry \<Rightarrow> tier \<Rightarrow> cid list \<Rightarrow> error option \<times> registry list" where
  "evict r targetTier [] = (None, [])"
| "evict r targetTier (m # ms) =
     (case move r m targetTier Host of
        (Some e, r') \<Rightarrow> (Some e, [r'])
      | (None, r') \<Rightarrow>
          (case evict r' targetTier ms of (res, trail) \<Rightarrow> (res, r' # trail)))"

text \<open>Modelled from the spec: step 4, stamping the component's last-used sequence number.\<close>

definition stamp :: "cid \<Rightarrow> registry \<Rightarrow> registry" where
  "stamp c r = (amend c (\<lambda>v. v\<lparr>last_used := sequence r\<rparr>) r)\<lparr>sequence := sequence r + 1\<rparr>"

text \<open>
  Modelled from the spec: the Placement Scheduler's
  \<^verbatim>\<open>ensureResident(component, targetTier)\<close>, steps 1 to 4 and the edge case of
  section 4.2. A failure of a transfer reaches the caller as CapacityExceeded.
  The result is the error, if any, and the registry after each transfer of the
  call in order; the call leaves the last of them behind, or the registry it
  started from when it transferred nothing.
\<close>

definition ensureResident :: "registry \<Rightarrow> cid \<Rightarrow> tier \<Rightarrow> error option \<times> registry list" where
  "ensureResident r c targetTier =
     (case currentTier r c of
        Inl e \<Rightarrow> (Some e, [])
      | Inr p \<Rightarrow>
          if p = At targetTier then (None, [])
          else
            (case evict r targetTier (victims r c targetTier) of
               (Some e, trail) \<Rightarrow> (Some CapacityExceeded, trail)
             | (None, trail) \<Rightarrow>
                 let r1 = last (r # trail) in
                 if wouldFit r1 targetTier c = Inr True
                 then (case move r1 c (alternate targetTier) targetTier of
                         (Some e, r2) \<Rightarrow> (Some CapacityExceeded, trail @ [r2])
                       | (None, r2) \<Rightarrow> (None, trail @ [stamp c r2]))
                 else (Some CapacityExceeded, trail)))"

text \<open>
  Modelled from the spec: the quiescent points of a sequence of
  \<^verbatim>\<open>ensureResident\<close> calls: the registry before the first call and after every
  transfer of every call.
\<close>

fun quiescent :: "registry \<Rightarrow> (cid \<times> tier) list \<Rightarrow> registry list" where
  "quiescent r [] = [r]"
| "quiescent r ((c, t) # requests) =
     (case ensureResident r c t of
        (res, trail) \<Rightarrow> r # butlast trail @ quiescent (last (r # trail)) requests)"

text \<open>
  Modelled from the spec: the invariant of an Exclusivity Group, at most one
  member in the Accelerator tier, for every configured group.
\<close>

definition exclusive :: "registry \<Rightarrow> bool" where
  "exclusive r =
     (\<forall>g\<in>set (groups r). \<forall>a\<in>set g. \<forall>b\<in>set g.
        a \<noteq> b \<longrightarrow> \<not> (resident r Accelerator a \<and> resident r Accelerator b))"

text \<open>
  Modelled from the spec: the scenario of section 8, an accelerator of capacity
  10 and the components X and Y of footprint 7 in one group, both on the host.
\<close>

definition demo :: registry where
  "demo = \<lparr>entries = [(''X'', \<lparr>footprint = 7, current = At Host, last_used = 0\<rparr>),
                      (''Y'', \<lparr>footprint = 7, current = At Host, last_used = 0\<rparr>)],
           capacity = (\<lambda>t. case t of Host \<Rightarrow> 1000 | Accelerator \<Rightarrow> 10),
           groups = [[''X'', ''Y'']],
           sequence = 1,
           device_ok = (\<lambda>c t n. True),
           attempts = 0\<rparr>"

section \<open>Properties of scripts/fix\_nvrtc.py\<close>

subsection \<open>Splitting\<close>




subsection \<open>The stable descending sort picks the first greatest element\<close>




lemma calls_create_symlink:
  "calls (create_symlink w s d done) = done @ [Symlink s d]"
  by (simp add: create_symlink_def calls_def split: sum.splits)

subsection \<open>main never removes a destination that is not a link\<close>

text \<open>
  Claim C9. When the library was found and the destination exists and is not a
  symbolic link, \<^verbatim>\<open>main\<close> exits with status 1, leaves the environment as it
  was and makes no call that changes the file system. Whenever \<^verbatim>\<open>os.remove\<close>
  is reached, in any run, it is called on the destination, and the destination
  is an existing symbolic link whose target differs from the library found.
\<close>

theorem main_regular_destination_untouched:
  "(find_nvrtc_lib w env_prefix = Inr (Some source_lib) \<longrightarrow>
    os_path_exists w (destination_path env_prefix source_lib) \<longrightarrow>
    \<not> os_path_islink w (destination_path env_prefix source_lib) \<longrightarrow>
      main w env_prefix = (Exit 1, w, []) \<and> exit_status (fst (main w env_prefix)) = 1)
   \<and> (Remove p \<in> set (calls (main w env_prefix)) \<longrightarrow>
        (\<exists>src target. find_nvrtc_lib w env_prefix = Inr (Some src) \<and>
           p = destination_path env_prefix src \<and> os_path_exists w p \<and>
           os_path_islink w p \<and> os_readlink w p = Inr target \<and> target \<noteq> src))"
proof (intro conjI impI)
  assume "find_nvrtc_lib w env_prefix = Inr (Some source_lib)"
    and "os_path_exists w (destination_path env_prefix source_lib)"
    and "\<not> os_path_islink w (destination_path env_prefix source_lib)"
  then show "main w env_prefix = (Exit 1, w, [])"
    by (simp add: main_def Let_def)
next
  assume "find_nvrtc_lib w env_prefix = Inr (Some source_lib)"
    and "os_path_exists w (destination_path env_prefix source_lib)"
    and "\<not> os_path_islink w (destination_path env_prefix source_lib)"
  then show "exit_status (fst (main w env_prefix)) = 1"
    by (simp add: main_def Let_def)
next
  assume r: "Remove p \<in> set (calls (main w env_prefix))"
  show "\<exists>src target. find_nvrtc_lib w env_prefix = Inr (Some src) \<and>
           p = destination_path env_prefix src \<and> os_path_exists w p \<and>
           os_path_islink w p \<and> os_readlink w p = Inr target \<and> target \<noteq> src"
  proof (cases "find_nvrtc_lib w env_prefix")
    case (Inl e)
    with r show ?thesis by (simp add: main_def calls_def)
  next
    case (Inr found)
    show ?thesis
    proof (cases found)
      case None
      with Inr r show ?thesis by (simp add: main_def calls_def)
    next
      case (Some src)
      let ?d = "destination_path env_prefix src"
      from r Inr Some have ex: "os_path_exists w ?d" and li: "os_path_islink w ?d"
        by (auto simp: main_def Let_def calls_create_symlink calls_def [of "(a, b, c)" for a b c]
            split: if_splits sum.splits)
      from li obtain target where t: "os_readlink w ?d = Inr target"
        by (auto simp: os_path_islink_def os_readlink_def split: option.splits node.splits)
      from r Inr Some ex li t have "target \<noteq> src \<and> p = ?d"
        by (auto simp: main_def Let_def calls_create_symlink calls_def [of "(a, b, c)" for a b c]
            split: if_splits sum.splits)
      with Inr Some ex li t show ?thesis by auto
    qed
  qed
qed

text \<open>
  The theorem at the example environment: with a regular file at the
  destination the run exits with 1 and changes nothing; with a link to another
  target there, \<^verbatim>\<open>os.remove\<close> is reached.
\<close>

theorem main_regular_destination_untouched_witness:
  "find_nvrtc_lib (example_world [''/env/lib/libnvrtc-builtins.so.13.0'' \<mapsto> Regular]) ''/env''
     = Inr (Some ''/env/lib/python3.10/site-packages/nvidia/cu13/lib/libnvrtc-builtins.so.13.0'')
   \<and> os_path_exists (example_world [''/env/lib/libnvrtc-builtins.so.13.0'' \<mapsto> Regular])
        ''/env/lib/libnvrtc-builtins.so.13.0''
   \<and> \<not> os_path_islink (example_world [''/env/lib/libnvrtc-builtins.so.13.0'' \<mapsto> Regular])
        ''/env/lib/libnvrtc-builtins.so.13.0''
   \<and> main (example_world [''/env/lib/libnvrtc-builtins.so.13.0'' \<mapsto> Regular]) ''/env''
     = (Exit 1, example_world [''/env/lib/libnvrtc-builtins.so.13.0'' \<mapsto> Regular], [])
   \<and> Remove ''/env/lib/libnvrtc-builtins.so.13.0''
       \<in> set (calls (main (example_world [''/env/lib/libnvrtc-builtins.so.13.0'' \<mapsto>
                 Link ''/old/libnvrtc-builtins.so.13.0'' True]) ''/env''))
   \<and> os_readlink (example_world [''/env/lib/libnvrtc-builtins.so.13.0'' \<mapsto>
                 Link ''/old/libnvrtc-builtins.so.13.0'' True]) ''/env/lib/libnvrtc-builtins.so.13.0''
       = Inr ''/old/libnvrtc-builtins.so.13.0''"
proof -
  let ?w = "example_world [''/env/lib/libnvrtc-builtins.so.13.0'' \<mapsto> Regular]"
  let ?v = "example_world [''/env/lib/libnvrtc-builtins.so.13.0'' \<mapsto>
                 Link ''/old/libnvrtc-builtins.so.13.0'' True]"
  let ?src = "''/env/lib/python3.10/site-packages/nvidia/cu13/lib/libnvrtc-builtins.so.13.0''"
  have d: "destination_path ''/env'' ?src = ''/env/lib/libnvrtc-builtins.so.13.0''"
    by code_simp
  have f: "find_nvrtc_lib ?w ''/env'' = Inr (Some ?src)"
    by code_simp
  have e: "os_path_exists ?w ''/env/lib/libnvrtc-builtins.so.13.0''"
    by code_simp
  have l: "\<not> os_path_islink ?w ''/env/lib/libnvrtc-builtins.so.13.0''"
    by code_simp
  have r: "Remove ''/env/lib/libnvrtc-builtins.so.13.0'' \<in> set (calls (main ?v ''/env''))"
    by code_simp
  have k: "os_readlink ?v ''/env/lib/libnvrtc-builtins.so.13.0'' = Inr ''/old/libnvrtc-builtins.so.13.0''"
    by code_simp
  from main_regular_destination_untouched [of ?w "''/env''" ?src] f e l d
  have "main ?w ''/env'' = (Exit 1, ?w, [])"
    by simp
  with f e l r k show ?thesis by simp
qed

subsection \<open>What version\_key reads\<close>





















subsection \<open>find\_nvrtc\_lib returns the candidate with the greatest version\<close>




section \<open>Properties of the placement scheduler\<close>

subsection \<open>Transfers and the registry\<close>

lemma map_of_amend:
  "map_of (map (\<lambda>(k, v). if k = c then (k, f v) else (k, v)) es) x =
     (if x = c then map_option f (map_of es c) else map_of es x)"
  by (induction es) auto

lemma lookup_amend:
  "lookup (amend c f r) x = (if x = c then map_option f (lookup r c) else lookup r x)"
  by (simp add: lookup_def amend_def map_of_amend)

lemma lookup_attempts [simp]: "lookup (r\<lparr>attempts := n\<rparr>) x = lookup r x"
  by (simp add: lookup_def)

lemma lookup_sequence [simp]: "lookup (r\<lparr>sequence := n\<rparr>) x = lookup r x"
  by (simp add: lookup_def)

lemma groups_amend [simp]: "groups (amend c f r) = groups r"
  by (simp add: amend_def)

lemma groups_move: "groups (snd (move r c f t)) = groups r"
  by (simp add: move_def Let_def split: option.splits)

lemma move_currentTier:
  "currentTier (snd (move r c f t)) x =
     (if x = c \<and> fst (move r c f t) = None then Inr (At t) else currentTier r x)"
  by (auto simp: move_def Let_def currentTier_def lookup_amend split: option.splits)

lemma stamp_currentTier: "currentTier (stamp c r) x = currentTier r x"
  by (auto simp: stamp_def currentTier_def lookup_amend split: option.splits)

lemma groups_stamp: "groups (stamp c r) = groups r"
  by (simp add: stamp_def)

lemma exclusive_shrink:
  assumes "exclusive r" and "groups q = groups r"
    and "\<And>x. resident q Accelerator x \<Longrightarrow> resident r Accelerator x"
  shows "exclusive q"
  using assms unfolding exclusive_def by metis

lemma evict_trail:
  "evict r T ms = (res, trail) \<Longrightarrow>
     (\<forall>q\<in>set trail. groups q = groups r \<and>
        (\<forall>x. currentTier q x = currentTier r x \<or>
             (x \<in> set ms \<and> currentTier q x = Inr (At Host))))
     \<and> (res = None \<longrightarrow> (\<forall>m\<in>set ms. currentTier (last (r # trail)) m = Inr (At Host)))"
proof (induction ms arbitrary: r res trail)
  case Nil
  then show ?case by simp
next
  case (Cons m ms)
  obtain e r' where mv: "move r m T Host = (e, r')" by (cases "move r m T Host")
  have g': "groups r' = groups r"
    using groups_move [of r m T Host] mv by simp
  have ct: "currentTier r' x = (if x = m \<and> e = None then Inr (At Host) else currentTier r x)" for x
    using move_currentTier [of r m T Host x] mv by simp
  show ?case
  proof (cases e)
    case (Some err)
    with Cons.prems mv have "res = Some err" "trail = [r']" by auto
    with g' ct Some show ?thesis by auto
  next
    case None
    obtain res' trail' where ev: "evict r' T ms = (res', trail')"
      by (cases "evict r' T ms")
    with Cons.prems mv None have rt: "res = res'" "trail = r' # trail'" by auto
    note ih = Cons.IH [OF ev]
    have a: "\<forall>q\<in>set trail. groups q = groups r \<and>
        (\<forall>x. currentTier q x = currentTier r x \<or>
             (x \<in> set (m # ms) \<and> currentTier q x = Inr (At Host)))"
    proof
      fix q assume "q \<in> set trail"
      then consider "q = r'" | "q \<in> set trail'" using rt by auto
      then show "groups q = groups r \<and>
        (\<forall>x. currentTier q x = currentTier r x \<or>
             (x \<in> set (m # ms) \<and> currentTier q x = Inr (At Host)))"
      proof cases
        case 1
        with g' ct None show ?thesis by auto
      next
        case 2
        with ih have gq: "groups q = groups r'"
          and cq: "\<forall>x. currentTier q x = currentTier r' x \<or>
             (x \<in> set ms \<and> currentTier q x = Inr (At Host))" by auto
        show ?thesis
        proof (intro conjI allI)
          show "groups q = groups r" using gq g' by simp
        next
          fix x
          show "currentTier q x = currentTier r x \<or>
             (x \<in> set (m # ms) \<and> currentTier q x = Inr (At Host))"
            using cq [rule_format, of x] ct [of x] None by (cases "x = m") auto
        qed
      qed
    qed
    have b: "res = None \<longrightarrow> (\<forall>k\<in>set (m # ms). currentTier (last (r # trail)) k = Inr (At Host))"
    proof (intro impI ballI)
      fix k assume rn: "res = None" and k: "k \<in> set (m # ms)"
      have l: "last (r # trail) = last (r' # trail')" using rt by simp
      show "currentTier (last (r # trail)) k = Inr (At Host)"
      proof (cases "k \<in> set ms")
        case True
        with ih rn rt l show ?thesis by auto
      next
        case False
        with k have km: "k = m" by simp
        have m0: "currentTier r' m = Inr (At Host)" using ct [of m] None by simp
        show ?thesis
        proof (cases "trail' = []")
          case True
          with l m0 km show ?thesis by simp
        next
          case nonempty: False
          then have "last (r' # trail') \<in> set trail'" by simp
          with ih have "currentTier (last (r' # trail')) m = currentTier r' m \<or>
             (m \<in> set ms \<and> currentTier (last (r' # trail')) m = Inr (At Host))" by blast
          with m0 l km show ?thesis by auto
        qed
      qed
    qed
    from a b show ?thesis by blast
  qed
qed

lemma evict_exclusive:
  assumes "evict r T ms = (res, trail)" and "exclusive r" and "q \<in> set trail"
  shows "exclusive q"
proof (rule exclusive_shrink [OF assms(2)])
  show "groups q = groups r" using evict_trail [OF assms(1)] assms(3) by blast
next
  fix x assume "resident q Accelerator x"
  moreover have "currentTier q x = currentTier r x \<or> currentTier q x = Inr (At Host)"
    using evict_trail [OF assms(1)] assms(3) by blast
  ultimately show "resident r Accelerator x" by (auto simp: resident_def)
qed

lemma last_trail_exclusive:
  assumes "exclusive r" and "\<forall>q\<in>set trail. exclusive q"
  shows "exclusive (last (r # trail))"
  using assms by (cases "trail = []") auto

lemma victims_member:
  "b \<in> set (victims r c T) = (b \<noteq> c \<and> resident r T b \<and> (\<exists>g\<in>set (groups r). c \<in> set g \<and> b \<in> set g))"
  by (auto simp: victims_def)

lemma ensureResident_exclusive:
  assumes er: "ensureResident r c T = (res, trail)" and ex: "exclusive r"
  shows "\<forall>q\<in>set trail. exclusive q"
proof (cases "currentTier r c")
  case (Inl e)
  with er show ?thesis by (simp add: ensureResident_def)
next
  case (Inr p)
  show ?thesis
  proof (cases "p = At T")
    case True
    with er Inr show ?thesis by (simp add: ensureResident_def)
  next
    case False
    obtain eres etrail where ev: "evict r T (victims r c T) = (eres, etrail)"
      by (cases "evict r T (victims r c T)")
    have et: "\<forall>q\<in>set etrail. exclusive q"
      using evict_exclusive [OF ev ex] by blast
    let ?r1 = "last (r # etrail)"
    have ex1: "exclusive ?r1" using last_trail_exclusive [OF ex et] .
    show ?thesis
    proof (cases eres)
      case (Some e)
      with er Inr False ev have "trail = etrail" by (simp add: ensureResident_def)
      with et show ?thesis by simp
    next
      case None
      show ?thesis
      proof (cases "wouldFit ?r1 T c = Inr True")
        case nofit: False
        with er Inr False ev None have "trail = etrail"
          by (simp add: ensureResident_def Let_def)
        with et show ?thesis by simp
      next
        case True
        obtain e2 r2 where mv: "move ?r1 c (alternate T) T = (e2, r2)"
          by (cases "move ?r1 c (alternate T) T")
        have g2: "groups r2 = groups ?r1" using groups_move [of ?r1 c "alternate T" T] mv by simp
        have ct2: "currentTier r2 x = (if x = c \<and> e2 = None then Inr (At T) else currentTier ?r1 x)" for x
          using move_currentTier [of ?r1 c "alternate T" T x] mv by simp
        have g1: "groups ?r1 = groups r"
          using evict_trail [OF ev] by (cases "etrail = []") auto
        have others: "\<not> resident ?r1 Accelerator b"
          if "b \<noteq> c" and "g \<in> set (groups r)" and "c \<in> set g" and "b \<in> set g"
            and "T = Accelerator" for b g
        proof (cases "resident r T b")
          case True
          with that have "b \<in> set (victims r c T)" by (auto simp: victims_member)
          with evict_trail [OF ev] None have "currentTier ?r1 b = Inr (At Host)" by blast
          then show ?thesis by (simp add: resident_def)
        next
          case nr: False
          then have nv: "b \<notin> set (victims r c T)" by (simp add: victims_member)
          have "currentTier ?r1 b = currentTier r b"
          proof (cases "etrail = []")
            case True
            then show ?thesis by simp
          next
            case ne: False
            then have "?r1 \<in> set etrail" by simp
            with evict_trail [OF ev] nv show ?thesis by blast
          qed
          with nr that(5) show ?thesis by (simp add: resident_def)
        qed
        have ex2: "exclusive r2"
        proof (cases "e2 = None \<and> T = Accelerator")
          case False
          show ?thesis
          proof (rule exclusive_shrink [OF ex1 g2])
            fix x assume "resident r2 Accelerator x"
            with ct2 [of x] False show "resident ?r1 Accelerator x"
              by (cases T) (auto simp: resident_def split: if_splits)
          qed
        next
          case moved: True
          show ?thesis
            unfolding exclusive_def
          proof (intro ballI impI notI)
            fix g a b
            assume g: "g \<in> set (groups r2)" and a: "a \<in> set g" and b: "b \<in> set g"
              and ab: "a \<noteq> b"
              and both: "resident r2 Accelerator a \<and> resident r2 Accelerator b"
            have gr: "g \<in> set (groups r)" "g \<in> set (groups ?r1)" using g g2 g1 by auto
            show False
            proof (cases "a = c \<or> b = c")
              case True
              then obtain m where m: "m \<noteq> c" "m \<in> set g" "c \<in> set g" "resident r2 Accelerator m"
                using a b ab both by metis
              then have "resident ?r1 Accelerator m"
                using ct2 [of m] by (simp add: resident_def)
              with others [OF m(1) gr(1) m(3) m(2)] moved show False by simp
            next
              case False
              then have "resident ?r1 Accelerator a \<and> resident ?r1 Accelerator b"
                using both ct2 [of a] ct2 [of b] by (simp add: resident_def)
              with ex1 gr(2) a b ab show False unfolding exclusive_def by blast
            qed
          qed
        qed
        have exs: "exclusive (stamp c r2)"
          by (rule exclusive_shrink [OF ex2]) (simp_all add: groups_stamp resident_def stamp_currentTier)
        have "trail = etrail @ [r2] \<or> trail = etrail @ [stamp c r2]"
          using er Inr False ev None True mv
          by (cases e2) (auto simp: ensureResident_def Let_def)
        with et ex2 exs show ?thesis by auto
      qed
    qed
  qed
qed

subsection \<open>No two members of a group are on the accelerator together\<close>

text \<open>
  Claim C1, on the scheduler as the specification describes it. From a registry
  in which no group has two members on the accelerator, every sequence of
  \<^verbatim>\<open>ensureResident\<close> calls, to either tier and whatever transfers fail, passes
  only quiescent points in which every configured group has at most one member
  resident in the Accelerator tier.
\<close>

theorem ensureResident_keeps_groups_exclusive:
  "exclusive r \<Longrightarrow> \<forall>q\<in>set (quiescent r requests). exclusive q"
proof (induction requests arbitrary: r)
  case Nil
  then show ?case by simp
next
  case (Cons request requests)
  obtain c t where rq: "request = (c, t)" by (cases request)
  obtain res trail where er: "ensureResident r c t = (res, trail)"
    by (cases "ensureResident r c t")
  have tr: "\<forall>q\<in>set trail. exclusive q"
    using ensureResident_exclusive [OF er Cons.prems] .
  have "exclusive (last (r # trail))"
    using last_trail_exclusive [OF Cons.prems tr] .
  then have rest: "\<forall>q\<in>set (quiescent (last (r # trail)) requests). exclusive q"
    by (rule Cons.IH)
  have "set (butlast trail) \<subseteq> set trail" by (auto dest: in_set_butlastD)
  with tr rest Cons.prems rq er show ?case by auto
qed

text \<open>
  The theorem at the scenario of section 8: X, then Y, then X again are made
  resident, and the accelerator holds nothing, X, nothing, Y, nothing, X.
\<close>

theorem ensureResident_keeps_groups_exclusive_witness:
  "exclusive demo \<and>
   list_all exclusive
     (quiescent demo [(''X'', Accelerator), (''Y'', Accelerator), (''X'', Accelerator)]) \<and>
   map (\<lambda>q. occupants q Accelerator)
     (quiescent demo [(''X'', Accelerator), (''Y'', Accelerator), (''X'', Accelerator)])
     = [[], [''X''], [], [''Y''], [], [''X'']]"
proof -
  have h: "exclusive demo" by code_simp
  have o: "map (\<lambda>q. occupants q Accelerator)
     (quiescent demo [(''X'', Accelerator), (''Y'', Accelerator), (''X'', Accelerator)])
     = [[], [''X''], [], [''Y''], [], [''X'']]"
    by code_simp
  from h o ensureResident_keeps_groups_exclusive [OF h] show ?thesis
    by (simp only: list_all_iff simp_thms)
qed

end
